theory Spec2Isabelle
  imports Main
begin

section \<open>Errors and the process state\<close>

text \<open>
  The script is Python. Every exception that the modelled code can raise is a value of
  \<open>py_error\<close>; a call that may raise returns \<open>py_error + 'a\<close> with \<open>Inl\<close> for the
  exception. \<open>ImportError\<close> also stands for its subclass \<open>ModuleNotFoundError\<close>, and the
  three errors of \<open>os.listdir\<close> are the usual subclasses of \<open>OSError\<close>.
\<close>

datatype py_error =
    KeyError
  | IndexError
  | TypeError
  | ImportError
  | FileNotFoundError
  | NotADirectoryError
  | PermissionError

text \<open>
  The part of the process that the path functions touch. \<open>listdir\<close> is \<open>os.listdir\<close> on
  the current filesystem, \<open>isdir\<close> is \<open>os.path.isdir\<close>, \<open>cwd\<close> is what \<open>os.getcwd()\<close>
  returns, \<open>sys_path\<close> is \<open>sys.path\<close> and \<open>stdout\<close> holds the lines printed so far.
  \<open>listed\<close> records the arguments of the \<open>os.listdir\<close> calls made so far, in order: it is
  the read-only effect of the resolver, and since every invocation of \<open>find_path\<close> lists
  exactly one directory it also counts the invocations.

  Paths and names are \<open>string\<close>, a list of bytes. The separator \<open>/\<close> is a single byte that
  occurs in no multi-byte UTF-8 sequence, so the POSIX path functions below act on the bytes
  as \<open>posixpath\<close> acts on the code points.
\<close>

record world =
  cwd :: string
  listdir :: "string \<Rightarrow> py_error + string list"
  isdir :: "string \<Rightarrow> bool"
  sys_path :: "string list"
  stdout :: "string list"
  listed :: "string list"

definition print :: "string \<Rightarrow> world \<Rightarrow> world" where
  "print line w = w\<lparr>stdout := stdout w @ [line]\<rparr>"

section \<open>The POSIX path functions used by the resolver\<close>

definition sep :: char where
  "sep = CHR ''/''"

text \<open>\<open>head.rstrip(sep)\<close>: drop the separators at the end.\<close>

definition rstrip_sep :: "string \<Rightarrow> string" where
  "rstrip_sep p = rev (dropWhile (\<lambda>c. c = sep) (rev p))"

text \<open>\<open>p[:p.rfind(sep) + 1]\<close>: the prefix up to and including the last separator, empty when
  there is none.\<close>

definition upto_last_sep :: "string \<Rightarrow> string" where
  "upto_last_sep p = rev (dropWhile (\<lambda>c. c \<noteq> sep) (rev p))"

text \<open>
  \<open>posixpath.dirname\<close>:
  \<^verbatim>\<open>
  i = p.rfind(sep) + 1
  head = p[:i]
  if head and head != sep*len(head):
      head = head.rstrip(sep)
  return head
  \<close>
\<close>

definition dirname :: "string \<Rightarrow> string" where
  "dirname p =
     (let head = upto_last_sep p
      in if head \<noteq> [] \<and> head \<noteq> replicate (length head) sep then rstrip_sep head else head)"

text \<open>
  \<open>posixpath.join\<close> with one component after the first:
  \<^verbatim>\<open>
  if b.startswith(sep): path = b
  elif not path or path.endswith(sep): path += b
  else: path += sep + b
  \<close>
\<close>

definition join :: "string \<Rightarrow> string \<Rightarrow> string" where
  "join a b =
     (if b \<noteq> [] \<and> hd b = sep then b
      else if a = [] \<or> last a = sep then a @ b
      else a @ sep # b)"

lemma upto_last_sep_split:
  "upto_last_sep p @ rev (takeWhile (\<lambda>c. c \<noteq> sep) (rev p)) = p"
proof -
  have "rev (takeWhile (\<lambda>c. c \<noteq> sep) (rev p) @ dropWhile (\<lambda>c. c \<noteq> sep) (rev p)) = p"
    by simp
  then show ?thesis
    unfolding upto_last_sep_def by (simp only: rev_append)
qed

lemma rstrip_sep_split:
  "rstrip_sep p @ rev (takeWhile (\<lambda>c. c = sep) (rev p)) = p"
proof -
  have "rev (takeWhile (\<lambda>c. c = sep) (rev p) @ dropWhile (\<lambda>c. c = sep) (rev p)) = p"
    by simp
  then show ?thesis
    unfolding rstrip_sep_def by (simp only: rev_append)
qed

lemma dirname_prefix: "\<exists>rest. p = dirname p @ rest"
proof -
  obtain t where t: "p = upto_last_sep p @ t"
    using upto_last_sep_split [of p] by metis
  obtain s where s: "upto_last_sep p = rstrip_sep (upto_last_sep p) @ s"
    using rstrip_sep_split [of "upto_last_sep p"] by metis
  show ?thesis
  proof (cases "dirname p = upto_last_sep p")
    case True
    with t show ?thesis by metis
  next
    case False
    then have "dirname p = rstrip_sep (upto_last_sep p)"
      by (simp add: dirname_def Let_def split: if_splits)
    then have "p = dirname p @ (s @ t)"
      using s t by (metis append_assoc)
    then show ?thesis by blast
  qed
qed

lemma dirname_shorter: "dirname p \<noteq> p \<Longrightarrow> length (dirname p) < length p"
proof -
  assume ne: "dirname p \<noteq> p"
  obtain rest where r: "p = dirname p @ rest"
    using dirname_prefix by blast
  with ne have "rest \<noteq> []" by auto
  then have "length (dirname p) < length (dirname p @ rest)" by simp
  with r show ?thesis by simp
qed

section \<open>The path resolver\<close>

text \<open>
  \<open>find_path(name, path=None)\<close>. The optional argument is a \<open>string option\<close>; the recursive
  call always passes the parent directory. The result is the raised exception, or the
  returned value with \<open>None\<close> for Python's \<open>None\<close>, together with the process state after the
  call. An exception of \<open>os.listdir\<close> is not caught by the source, so it is the result.
\<close>

function find_path :: "string \<Rightarrow> string option \<Rightarrow> world \<Rightarrow> (py_error + string option) \<times> world" where
  "find_path name path_arg w =
     (let path = (case path_arg of None \<Rightarrow> cwd w | Some p \<Rightarrow> p);
          w1 = w\<lparr>listed := listed w @ [path]\<rparr>
      in case listdir w path of
           Inl e \<Rightarrow> (Inl e, w1)
         | Inr entries \<Rightarrow>
             if name \<in> set entries then
               (let path_name = join path name
                in (Inr (Some path_name), print (name @ '' found: '' @ path_name) w1))
             else
               (let parent_directory = dirname path
                in if parent_directory = path then (Inr None, w1)
                   else find_path name (Some parent_directory) w1))"
  by pat_completeness auto
termination
  by (relation "measure (\<lambda>(name, path_arg, w). length (case path_arg of None \<Rightarrow> cwd w | Some p \<Rightarrow> p))")
     (auto simp: dirname_shorter)

declare find_path.simps [simp del]

section \<open>The chain of directories the resolver visits\<close>

text \<open>
  The directories that \<open>find_path\<close> can list, in the order of the ascent: the starting
  directory, then \<open>os.path.dirname\<close> of it, and so on until \<open>dirname\<close> returns its
  argument (the test \<open>parent_directory == path\<close> of the source).
\<close>

function ascent :: "string \<Rightarrow> string list" where
  "ascent path =
     (let parent_directory = dirname path
      in if parent_directory = path then [path] else path # ascent parent_directory)"
  by pat_completeness auto
termination
  by (relation "measure length") (auto simp: dirname_shorter)

declare ascent.simps [simp del]

text \<open>The directory the search starts in: \<open>if path is None: path = os.getcwd()\<close>.\<close>

definition start_dir :: "string option \<Rightarrow> world \<Rightarrow> string" where
  "start_dir path_arg w = (case path_arg of None \<Rightarrow> cwd w | Some p \<Rightarrow> p)"

text \<open>
  A small filesystem for the concrete runs: \<open>/a/b/c\<close> holds one file, \<open>target.yaml\<close> is
  present in \<open>/a/b\<close> and in \<open>/a\<close>, \<open>/etc\<close> cannot be listed, the empty path and every
  other path do not exist. A path with a separator at its end names the same directory.
\<close>

definition example_listdir :: "string \<Rightarrow> py_error + string list" where
  "example_listdir p =
     (if p = ''/'' then Inr [''a'', ''etc'']
      else if p = ''/a'' \<or> p = ''/a/'' then Inr [''b'', ''ComfyUI'', ''target.yaml'']
      else if p = ''/a/b'' \<or> p = ''/a/b/'' then Inr [''c'', ''target.yaml'']
      else if p = ''/a/b/c'' \<or> p = ''/a/b/c/'' then Inr [''notes.txt'']
      else if p = ''/etc'' \<or> p = ''/etc/'' then Inl PermissionError
      else Inl FileNotFoundError)"

text \<open>
  The same tree seen from the working directory \<open>/\<close> through relative paths. The empty
  path is no directory: \<open>os.listdir('')\<close> raises \<open>FileNotFoundError\<close>.
\<close>

definition relative_listdir :: "string \<Rightarrow> py_error + string list" where
  "relative_listdir p =
     (if p = ''a'' then Inr [''b'', ''target.yaml'']
      else if p = ''a/b'' then Inr [''c'']
      else if p = [] then Inl FileNotFoundError
      else example_listdir p)"


definition example_world :: world where
  "example_world =
     \<lparr>cwd = ''/a/b'', listdir = example_listdir,
      isdir = (\<lambda>p. p \<in> set [''/'', ''/a'', ''/a/b'', ''/a/b/c'', ''/a/ComfyUI'', ''/etc'']),
      sys_path = [''/a/b''], stdout = [], listed = []\<rparr>"

lemma find_path_None: "find_path name None w = find_path name (Some (cwd w)) w"
  by (subst (1 2) find_path.simps) simp


lemma find_path_Some:
  "find_path name (Some p) w =
     (case listdir w p of
        Inl e \<Rightarrow> (Inl e, w\<lparr>listed := listed w @ [p]\<rparr>)
      | Inr entries \<Rightarrow>
          if name \<in> set entries then
            (Inr (Some (join p name)),
             print (name @ '' found: '' @ join p name) (w\<lparr>listed := listed w @ [p]\<rparr>))
          else if dirname p = p then (Inr None, w\<lparr>listed := listed w @ [p]\<rparr>)
          else find_path name (Some (dirname p)) (w\<lparr>listed := listed w @ [p]\<rparr>))"
  by (subst find_path.simps) (simp add: Let_def split: sum.splits)

lemma ascent_root: "dirname p = p \<Longrightarrow> ascent p = [p]"
  by (subst ascent.simps) (simp add: Let_def)

lemma ascent_step: "dirname p \<noteq> p \<Longrightarrow> ascent p = p # ascent (dirname p)"
  by (subst ascent.simps) (simp add: Let_def)

lemma ascent_not_Nil: "ascent p \<noteq> []"
  by (cases "dirname p = p") (simp_all add: ascent_root ascent_step)

lemma ascent_Cons: "ascent p = q # qs \<Longrightarrow> q = p"
  by (cases "dirname p = p") (simp_all add: ascent_root ascent_step)

lemma ascent_tail:
  "ascent p = q # r # rs \<Longrightarrow> dirname p \<noteq> p \<and> ascent (dirname p) = r # rs"
  by (cases "dirname p = p") (auto simp: ascent_root ascent_step)

lemma ascent_single: "ascent p = [q] \<Longrightarrow> dirname p = p"
  by (cases "dirname p = p") (simp_all add: ascent_step ascent_not_Nil)

text \<open>A directory that can be listed and does not hold the name: the search goes on.\<close>

definition misses :: "string \<Rightarrow> world \<Rightarrow> string \<Rightarrow> bool" where
  "misses name w q = (case listdir w q of Inl e \<Rightarrow> False | Inr entries \<Rightarrow> name \<notin> set entries)"

lemma find_path_skip:
  "ascent p = pre @ d # rest \<Longrightarrow> \<forall>q\<in>set pre. misses name w q \<Longrightarrow>
   find_path name (Some p) w = find_path name (Some d) (w\<lparr>listed := listed w @ pre\<rparr>)"
proof (induction pre arbitrary: p w)
  case Nil
  then have "d = p" using ascent_Cons by auto
  then show ?case by simp
next
  case (Cons q pre)
  from Cons.prems(1) have qp: "q = p" using ascent_Cons by auto
  obtain r rs where rr: "pre @ d # rest = r # rs" by (cases "pre @ d # rest") auto
  with Cons.prems(1) have "ascent p = q # r # rs" by simp
  then have dn: "dirname p \<noteq> p" and asc: "ascent (dirname p) = pre @ d # rest"
    using ascent_tail rr by auto
  from Cons.prems(2) qp have m: "misses name w p" by simp
  let ?w1 = "w\<lparr>listed := listed w @ [p]\<rparr>"
  have step: "find_path name (Some p) w = find_path name (Some (dirname p)) ?w1"
    using m dn by (subst find_path_Some) (simp add: misses_def split: sum.splits)
  have "\<forall>q\<in>set pre. misses name ?w1 q"
    using Cons.prems(2) by (simp add: misses_def)
  from Cons.IH [OF asc this]
  have "find_path name (Some (dirname p)) ?w1 = find_path name (Some d) (?w1\<lparr>listed := listed ?w1 @ pre\<rparr>)" .
  with step qp show ?case by simp
qed



lemma find_path_start: "find_path name path_arg w = find_path name (Some (start_dir path_arg w)) w"
  by (cases path_arg) (simp_all add: start_dir_def find_path_None)


lemma find_path_first_error:
  assumes "ascent p = pre @ d # rest" and "\<forall>q\<in>set pre. misses name w q"
    and "listdir w d = Inl e"
  shows "find_path name (Some p) w = (Inl e, w\<lparr>listed := listed w @ pre @ [d]\<rparr>)"
proof -
  have "find_path name (Some p) w = find_path name (Some d) (w\<lparr>listed := listed w @ pre\<rparr>)"
    using assms(1,2) by (rule find_path_skip)
  also have "\<dots> = (Inl e, w\<lparr>listed := listed w @ pre @ [d]\<rparr>)"
    using assms(3) by (subst find_path_Some) simp
  finally show ?thesis .
qed




lemma find_path_visited:
  "\<exists>vis. listed (snd (find_path name (Some p) w)) = listed w @ vis \<and> vis \<noteq> [] \<and>
         length vis \<le> length (ascent p) \<and>
         ((\<exists>v. fst (find_path name (Some p) w) = Inr v) \<longrightarrow>
            (\<forall>q\<in>set vis. \<exists>entries. listdir w q = Inr entries))"
proof (induction p arbitrary: w rule: ascent.induct)
  case (1 path)
  let ?w1 = "w\<lparr>listed := listed w @ [path]\<rparr>"
  show ?case
  proof (cases "listdir w path")
    case (Inl e)
    then have "find_path name (Some path) w = (Inl e, ?w1)"
      by (subst find_path_Some) simp
    then show ?thesis using ascent_not_Nil [of path]
      by (intro exI [of _ "[path]"]) (simp add: Suc_le_eq)
  next
    case (Inr entries)
    show ?thesis
    proof (cases "name \<in> set entries")
      case True
      with Inr have "find_path name (Some path) w =
          (Inr (Some (join path name)), print (name @ '' found: '' @ join path name) ?w1)"
        by (subst find_path_Some) simp
      then show ?thesis using ascent_not_Nil [of path] Inr
        by (intro exI [of _ "[path]"]) (simp add: Suc_le_eq print_def)
    next
      case False
      show ?thesis
      proof (cases "dirname path = path")
        case True
        with Inr False have "find_path name (Some path) w = (Inr None, ?w1)"
          by (subst find_path_Some) simp
        then show ?thesis using ascent_not_Nil [of path] Inr
          by (intro exI [of _ "[path]"]) (simp add: Suc_le_eq)
      next
        case dn: False
        with Inr False have step:
          "find_path name (Some path) w = find_path name (Some (dirname path)) ?w1"
          by (subst find_path_Some) simp
        from 1 [OF refl dn, of ?w1] obtain vis where
          v1: "listed (snd (find_path name (Some (dirname path)) ?w1)) = listed ?w1 @ vis"
          and v2: "length vis \<le> length (ascent (dirname path))"
          and v3: "(\<exists>v. fst (find_path name (Some (dirname path)) ?w1) = Inr v) \<longrightarrow>
                     (\<forall>q\<in>set vis. \<exists>entries. listdir ?w1 q = Inr entries)"
          by blast
        have "listed (snd (find_path name (Some path) w)) = listed w @ (path # vis)"
          using step v1 by simp
        moreover have "length (path # vis) \<le> length (ascent path)"
          using v2 dn by (simp add: ascent_step)
        moreover have "(\<exists>v. fst (find_path name (Some path) w) = Inr v) \<longrightarrow>
                     (\<forall>q\<in>set (path # vis). \<exists>entries. listdir w q = Inr entries)"
          using v3 step Inr by simp
        ultimately show ?thesis by blast
      qed
    qed
  qed
qed


section \<open>Properties of the path resolver\<close>





text \<open>
  C10. The resolver does not catch the error of \<open>os.listdir\<close>. When the starting path does
  not exist or cannot be listed, the listing error is the result, not \<open>None\<close>; the same
  holds for the first directory on the ascent that cannot be listed, when the directories
  before it do not hold the name. Conversely, when the resolver returns a value, every
  directory it listed could be listed.
\<close>

theorem find_path_listing_error_propagates:
  "(listdir w (start_dir path_arg w) = Inl e \<longrightarrow> fst (find_path name path_arg w) = Inl e) \<and>
   (ascent (start_dir path_arg w) = pre @ d # rest \<and> (\<forall>q\<in>set pre. misses name w q) \<and>
      listdir w d = Inl e' \<longrightarrow> fst (find_path name path_arg w) = Inl e') \<and>
   ((\<exists>v. fst (find_path name path_arg w) = Inr v) \<longrightarrow>
      (\<forall>q\<in>set (drop (length (listed w)) (listed (snd (find_path name path_arg w)))).
         \<exists>entries. listdir w q = Inr entries))"
proof (intro conjI impI)
  assume "listdir w (start_dir path_arg w) = Inl e"
  then show "fst (find_path name path_arg w) = Inl e"
    by (subst find_path_start, subst find_path_Some) simp
next
  assume "ascent (start_dir path_arg w) = pre @ d # rest \<and> (\<forall>q\<in>set pre. misses name w q) \<and>
      listdir w d = Inl e'"
  then show "fst (find_path name path_arg w) = Inl e'"
    using find_path_first_error [of "start_dir path_arg w" pre d rest name w e']
    by (subst find_path_start) simp
next
  assume ok: "\<exists>v. fst (find_path name path_arg w) = Inr v"
  obtain vis where
    v1: "listed (snd (find_path name (Some (start_dir path_arg w)) w)) = listed w @ vis"
    and v2: "(\<exists>v. fst (find_path name (Some (start_dir path_arg w)) w) = Inr v) \<longrightarrow>
              (\<forall>q\<in>set vis. \<exists>entries. listdir w q = Inr entries)"
    using find_path_visited [of name "start_dir path_arg w" w] by blast
  have eq: "find_path name path_arg w = find_path name (Some (start_dir path_arg w)) w"
    by (rule find_path_start)
  from ok v2 eq have "\<forall>q\<in>set vis. \<exists>entries. listdir w q = Inr entries" by simp
  moreover have "drop (length (listed w)) (listed (snd (find_path name path_arg w))) = vis"
    using v1 eq by simp
  ultimately show "\<forall>q\<in>set (drop (length (listed w)) (listed (snd (find_path name path_arg w)))).
         \<exists>entries. listdir w q = Inr entries" by simp
qed

theorem find_path_listing_error_propagates_witness:
  "fst (find_path ''ComfyUI'' (Some ''/nowhere'') example_world) = Inl FileNotFoundError \<and>
   fst (find_path ''ComfyUI'' (Some ''/etc'') example_world) = Inl PermissionError \<and>
   fst (find_path ''ComfyUI'' (Some ''a/b'') (example_world\<lparr>listdir := relative_listdir\<rparr>))
     = Inl FileNotFoundError"
proof -
  have 1: "listdir example_world (start_dir (Some ''/nowhere'') example_world) = Inl FileNotFoundError"
    by (simp add: start_dir_def example_world_def example_listdir_def)
  have 2: "listdir example_world (start_dir (Some ''/etc'') example_world) = Inl PermissionError"
    by (simp add: start_dir_def example_world_def example_listdir_def)
  let ?w = "example_world\<lparr>listdir := relative_listdir\<rparr>"
  have a: "ascent (start_dir (Some ''a/b'') ?w) = [''a/b'', ''a''] @ [] # []"
    unfolding start_dir_def by code_simp
  have m: "\<forall>q\<in>set [''a/b'', ''a'']. misses ''ComfyUI'' ?w q"
    by (simp add: misses_def relative_listdir_def)
  have l: "listdir ?w [] = Inl FileNotFoundError"
    by (simp add: relative_listdir_def)
  note t = find_path_listing_error_propagates
  from t [where w = example_world and path_arg = "Some ''/nowhere''" and e = FileNotFoundError
      and name = "''ComfyUI''"]
  have "fst (find_path ''ComfyUI'' (Some ''/nowhere'') example_world) = Inl FileNotFoundError"
    using 1 by blast
  moreover from t [where w = example_world and path_arg = "Some ''/etc''" and e = PermissionError
      and name = "''ComfyUI''"]
  have "fst (find_path ''ComfyUI'' (Some ''/etc'') example_world) = Inl PermissionError"
    using 2 by blast
  moreover from t [where w = ?w and path_arg = "Some ''a/b''" and pre = "[''a/b'', ''a'']"
      and d = "[]" and rest = "[]" and name = "''ComfyUI''" and e' = FileNotFoundError]
  have "fst (find_path ''ComfyUI'' (Some ''a/b'') ?w) = Inl FileNotFoundError"
    using a m l by blast
  ultimately show ?thesis by simp
qed



lemma find_path_frame:
  "listdir (snd (find_path name (Some p) w)) = listdir w \<and>
   isdir (snd (find_path name (Some p) w)) = isdir w \<and>
   cwd (snd (find_path name (Some p) w)) = cwd w \<and>
   sys_path (snd (find_path name (Some p) w)) = sys_path w \<and>
   stdout (snd (find_path name (Some p) w)) =
     stdout w @ (case fst (find_path name (Some p) w) of
                   Inr (Some path_name) \<Rightarrow> [name @ '' found: '' @ path_name]
                 | Inr None \<Rightarrow> []
                 | Inl e \<Rightarrow> [])"
proof (induction p arbitrary: w rule: ascent.induct)
  case (1 path)
  let ?w1 = "w\<lparr>listed := listed w @ [path]\<rparr>"
  show ?case
  proof (cases "\<exists>entries. listdir w path = Inr entries \<and> name \<notin> set entries \<and> dirname path \<noteq> path")
    case True
    then have step: "find_path name (Some path) w = find_path name (Some (dirname path)) ?w1"
      by (subst find_path_Some) auto
    from True have "dirname path \<noteq> path" by blast
    from 1 [OF refl this, of ?w1] show ?thesis
      by (simp only: step) simp
  next
    case False
    then show ?thesis
      by (subst (1 2 3 4 5 6) find_path_Some) (auto simp: print_def split: sum.splits)
  qed
qed

text \<open>
  C8, as the code has it. The resolver changes nothing of the filesystem, of the working
  directory or of \<open>sys.path\<close>. It does write to standard output: one line, the name and
  the path found, exactly when it finds the name; it prints nothing when it returns
  \<open>None\<close> or when the listing raises.
\<close>

theorem find_path_effects:
  "listdir (snd (find_path name path_arg w)) = listdir w \<and>
   isdir (snd (find_path name path_arg w)) = isdir w \<and>
   cwd (snd (find_path name path_arg w)) = cwd w \<and>
   sys_path (snd (find_path name path_arg w)) = sys_path w \<and>
   stdout (snd (find_path name path_arg w)) =
     stdout w @ (case fst (find_path name path_arg w) of
                   Inr (Some path_name) \<Rightarrow> [name @ '' found: '' @ path_name]
                 | Inr None \<Rightarrow> []
                 | Inl e \<Rightarrow> [])"
  using find_path_frame [of name "start_dir path_arg w" w]
  by (subst (1 2 3 4 5 6) find_path_start) blast

theorem find_path_effects_witness:
  "stdout (snd (find_path ''target.yaml'' (Some ''/a/b/c'') example_world)) =
     [''target.yaml found: /a/b/target.yaml''] \<and>
   sys_path (snd (find_path ''target.yaml'' (Some ''/a/b/c'') example_world)) = [''/a/b''] \<and>
   stdout (snd (find_path ''missing.yaml'' (Some ''/a/b/c'') example_world)) = []"
proof -
  have 1: "fst (find_path ''target.yaml'' (Some ''/a/b/c'') example_world) = Inr (Some ''/a/b/target.yaml'')"
    by code_simp
  have 2: "fst (find_path ''missing.yaml'' (Some ''/a/b/c'') example_world) = Inr None"
    by code_simp
  have 3: "stdout example_world = [] \<and> sys_path example_world = [''/a/b'']"
    by (simp add: example_world_def)
  show ?thesis
    using find_path_effects [of "''target.yaml''" "Some ''/a/b/c''" example_world]
      find_path_effects [of "''missing.yaml''" "Some ''/a/b/c''" example_world] 1 2 3
    by simp
qed

theorem find_path_prints_when_found:
  "stdout (snd (find_path ''target.yaml'' (Some ''/a/b/c'') example_world)) \<noteq> stdout example_world"
  by code_simp

section \<open>Depth of a path and the number of recursive steps\<close>

text \<open>
  \<open>split_sep\<close> is \<open>p.split('/')\<close>. The components of a path are the non-empty pieces
  between separators, and the depth of a path is the number of its components: for the
  absolute, normalised path of a directory it is the number of its ancestors up to the
  root.
\<close>

fun split_sep :: "string \<Rightarrow> string list" where
  "split_sep [] = [[]]"
| "split_sep (c # cs) =
     (if c = sep then [] # split_sep cs
      else (case split_sep cs of [] \<Rightarrow> [[c]] | s # ss \<Rightarrow> (c # s) # ss))"

definition components :: "string \<Rightarrow> string list" where
  "components p = filter (\<lambda>s. s \<noteq> []) (split_sep p)"

definition depth :: "string \<Rightarrow> nat" where
  "depth p = length (components p)"

lemma split_sep_not_Nil: "split_sep xs \<noteq> []"
  by (induction xs) (auto split: list.splits)

lemma split_sep_append: "split_sep (xs @ sep # ys) = split_sep xs @ split_sep ys"
  by (induction xs) (auto split: list.splits simp: split_sep_not_Nil)

lemma split_sep_plain: "sep \<notin> set xs \<Longrightarrow> split_sep xs = [xs]"
  by (induction xs) auto

lemma components_append: "components (xs @ sep # ys) = components xs @ components ys"
  by (simp add: components_def split_sep_append)

lemma components_plain: "sep \<notin> set xs \<Longrightarrow> components xs = (if xs = [] then [] else [xs])"
  by (simp add: components_def split_sep_plain)

lemma depth_snoc_sep: "depth (xs @ [sep]) = depth xs"
  using components_append [of xs "[]"] by (simp add: depth_def components_def)

lemma depth_append_seps: "depth (xs @ replicate k sep) = depth xs"
proof (induction k arbitrary: xs)
  case 0
  then show ?case by simp
next
  case (Suc k)
  have "xs @ replicate (Suc k) sep = (xs @ [sep]) @ replicate k sep" by simp
  then show ?case using Suc [of "xs @ [sep]"] by (simp only: depth_snoc_sep)
qed

lemma takeWhile_eq_replicate:
  "takeWhile (\<lambda>c. c = a) xs = replicate (length (takeWhile (\<lambda>c. c = a) xs)) a"
  by (induction xs) auto

lemma rstrip_sep_decomp: "\<exists>k. p = rstrip_sep p @ replicate k sep"
proof -
  let ?t = "takeWhile (\<lambda>c. c = sep) (rev p)"
  have "rev ?t = rev (replicate (length ?t) sep)"
    using takeWhile_eq_replicate [of sep "rev p"] by simp
  then have "rev ?t = replicate (length ?t) sep" by simp
  then have "rstrip_sep p @ replicate (length ?t) sep = p"
    using rstrip_sep_split [of p] by simp
  then show ?thesis by metis
qed

lemma depth_rstrip_sep: "depth (rstrip_sep p) = depth p"
proof -
  obtain k where "p = rstrip_sep p @ replicate k sep"
    using rstrip_sep_decomp by blast
  then have "depth p = depth (rstrip_sep p @ replicate k sep)" by simp
  then show ?thesis by (simp only: depth_append_seps)
qed

text \<open>What follows the last separator of a path (\<open>posixpath.basename\<close>).\<close>

definition last_component :: "string \<Rightarrow> string" where
  "last_component p = rev (takeWhile (\<lambda>c. c \<noteq> sep) (rev p))"

lemma last_component_no_sep: "sep \<notin> set (last_component p)"
proof -
  have "\<forall>c\<in>set (takeWhile (\<lambda>c. c \<noteq> sep) (rev p)). c \<noteq> sep"
    using set_takeWhileD by fastforce
  then show ?thesis by (auto simp: last_component_def)
qed

lemma upto_last_sep_ends: "upto_last_sep p = [] \<or> last (upto_last_sep p) = sep"
proof (cases "dropWhile (\<lambda>c. c \<noteq> sep) (rev p)")
  case Nil
  then show ?thesis by (simp add: upto_last_sep_def)
next
  case (Cons a as)
  then have "a = sep" using hd_dropWhile [of "\<lambda>c. c \<noteq> sep" "rev p"] by auto
  with Cons show ?thesis by (simp add: upto_last_sep_def)
qed

lemma depth_Nil: "depth [] = 0"
  by (simp add: depth_def components_def)

lemma depth_plain: "sep \<notin> set t \<Longrightarrow> depth t = (if t = [] then 0 else 1)"
  by (simp add: depth_def components_plain)

lemma depth_append_plain:
  "sep \<notin> set t \<Longrightarrow> depth (h @ sep # t) = depth h + (if t = [] then 0 else 1)"
  by (simp add: depth_def components_append components_plain)

lemma depth_split: "depth p = depth (upto_last_sep p) + (if last_component p = [] then 0 else 1)"
proof -
  define hd_part where "hd_part = upto_last_sep p"
  define t where "t = last_component p"
  have p: "p = hd_part @ t"
    using upto_last_sep_split [of p] by (simp add: hd_part_def t_def last_component_def)
  have t: "sep \<notin> set t"
    by (simp add: t_def last_component_no_sep)
  have ends: "hd_part = [] \<or> last hd_part = sep"
    using upto_last_sep_ends [of p] by (simp add: hd_part_def)
  have "depth (hd_part @ t) = depth hd_part + (if t = [] then 0 else 1)"
  proof (cases "hd_part = []")
    case True
    then show ?thesis using t by (simp add: depth_plain depth_Nil)
  next
    case False
    with ends obtain h where h: "hd_part = h @ [sep]"
      by (metis append_butlast_last_id)
    have "depth ((h @ [sep]) @ t) = depth h + (if t = [] then 0 else 1)"
      using depth_append_plain [OF t, of h] by simp
    moreover have "depth (h @ [sep]) = depth h" by (rule depth_snoc_sep)
    ultimately show ?thesis by (simp only: h)
  qed
  moreover have "upto_last_sep p @ last_component p = p"
    using upto_last_sep_split [of p] by (simp add: last_component_def)
  ultimately show ?thesis by (simp add: hd_part_def t_def)
qed

lemma depth_dirname_head: "depth (dirname p) = depth (upto_last_sep p)"
  by (simp add: dirname_def Let_def depth_rstrip_sep)

lemma depth_dirname: "depth p = depth (dirname p) + (if last_component p = [] then 0 else 1)"
  by (simp only: depth_split [of p] depth_dirname_head)

lemma depth_zero_all_sep: "depth p = 0 \<Longrightarrow> \<forall>c\<in>set p. c = sep"
proof (induction p)
  case Nil
  then show ?case by simp
next
  case (Cons c cs)
  show ?case
  proof (cases "c = sep")
    case True
    then have "depth (c # cs) = depth cs"
      by (simp add: depth_def components_def)
    with Cons True show ?thesis by simp
  next
    case False
    obtain s ss where "split_sep cs = s # ss"
      using split_sep_not_Nil [of cs] by (cases "split_sep cs") auto
    with False have "depth (c # cs) \<noteq> 0"
      by (simp add: depth_def components_def)
    with Cons.prems show ?thesis by simp
  qed
qed

lemma upto_last_sep_all_sep: "\<forall>c\<in>set p. c = sep \<Longrightarrow> upto_last_sep p = p"
proof -
  assume a: "\<forall>c\<in>set p. c = sep"
  have "dropWhile (\<lambda>c. c \<noteq> sep) (rev p) = rev p"
  proof (cases "rev p")
    case Nil
    then show ?thesis by simp
  next
    case (Cons x xs)
    then have "x \<in> set p" by (metis list.set_intros(1) set_rev)
    with a have "x = sep" by blast
    with Cons show ?thesis by simp
  qed
  then show ?thesis by (simp add: upto_last_sep_def)
qed

lemma depth_zero_root: "depth p = 0 \<Longrightarrow> dirname p = p"
proof -
  assume "depth p = 0"
  then have a: "\<forall>c\<in>set p. c = sep" by (rule depth_zero_all_sep)
  then have h: "upto_last_sep p = p" by (rule upto_last_sep_all_sep)
  have "replicate (length p) sep = p"
    using a by (simp add: replicate_length_same)
  with h show ?thesis by (simp add: dirname_def Let_def)
qed

lemma rstrip_sep_tidy: "rstrip_sep x = [] \<or> last (rstrip_sep x) \<noteq> sep"
proof (cases "dropWhile (\<lambda>c. c = sep) (rev x)")
  case Nil
  then show ?thesis by (simp add: rstrip_sep_def)
next
  case (Cons a as)
  then have "a \<noteq> sep" using hd_dropWhile [of "\<lambda>c. c = sep" "rev x"] by auto
  with Cons show ?thesis by (simp add: rstrip_sep_def)
qed

lemma depth_all_sep: "depth (replicate k sep) = 0"
  using depth_append_seps [of "[]" k] by (simp add: depth_Nil)

text \<open>A path that does not end with a separator, or has no component at all.\<close>

definition tidy :: "string \<Rightarrow> bool" where
  "tidy p = (p = [] \<or> last p \<noteq> sep \<or> depth p = 0)"

lemma dirname_tidy: "tidy (dirname p)"
proof (cases "upto_last_sep p \<noteq> [] \<and> upto_last_sep p \<noteq> replicate (length (upto_last_sep p)) sep")
  case True
  then have "dirname p = rstrip_sep (upto_last_sep p)"
    by (simp add: dirname_def Let_def)
  then show ?thesis using rstrip_sep_tidy [of "upto_last_sep p"] by (auto simp: tidy_def)
next
  case False
  then have d: "dirname p = upto_last_sep p"
    by (auto simp: dirname_def Let_def)
  from False have "upto_last_sep p = [] \<or> upto_last_sep p = replicate (length (upto_last_sep p)) sep"
    by blast
  then have "depth (upto_last_sep p) = 0"
    using depth_all_sep [of "length (upto_last_sep p)"] depth_Nil by auto
  with d show ?thesis by (simp add: tidy_def)
qed

lemma last_component_not_Nil: "p \<noteq> [] \<Longrightarrow> last p \<noteq> sep \<Longrightarrow> last_component p \<noteq> []"
  by (simp add: last_component_def takeWhile_eq_Nil_iff hd_rev)

lemma ascent_length_tidy: "tidy p \<Longrightarrow> length (ascent p) \<le> depth p + 1"
proof (induction p rule: ascent.induct)
  case (1 path)
  show ?case
  proof (cases "dirname path = path")
    case True
    then show ?thesis by (simp add: ascent_root)
  next
    case False
    then have nz: "depth path \<noteq> 0" using depth_zero_root by blast
    then have "path \<noteq> []" using depth_Nil by auto
    with nz "1.prems" have "last path \<noteq> sep" by (simp add: tidy_def)
    with \<open>path \<noteq> []\<close> have "last_component path \<noteq> []" by (rule last_component_not_Nil)
    then have d: "depth path = depth (dirname path) + 1"
      using depth_dirname [of path] by simp
    have "length (ascent (dirname path)) \<le> depth (dirname path) + 1"
      using 1(1) [OF refl False dirname_tidy] .
    with d False show ?thesis by (simp add: ascent_step)
  qed
qed

lemma ascent_length: "length (ascent p) \<le> depth p + 2"
proof (cases "dirname p = p")
  case True
  then show ?thesis by (simp add: ascent_root)
next
  case False
  have "length (ascent (dirname p)) \<le> depth (dirname p) + 1"
    using dirname_tidy by (rule ascent_length_tidy)
  moreover have "depth (dirname p) \<le> depth p"
    using depth_dirname [of p] by simp
  ultimately show ?thesis using False by (simp add: ascent_step)
qed

text \<open>
  The recursive steps of one call of the resolver: every invocation of \<open>find_path\<close> lists
  exactly one directory, so they are the directories listed during the call, less the one
  listed by the first invocation.
\<close>

definition recursive_steps :: "string \<Rightarrow> string option \<Rightarrow> world \<Rightarrow> nat" where
  "recursive_steps name path_arg w =
     length (listed (snd (find_path name path_arg w))) - length (listed w) - 1"

lemma recursive_steps_ascent:
  "recursive_steps name path_arg w < length (ascent (start_dir path_arg w))"
proof -
  obtain vis where
    v: "listed (snd (find_path name (Some (start_dir path_arg w)) w)) = listed w @ vis"
    and n: "vis \<noteq> []" and l: "length vis \<le> length (ascent (start_dir path_arg w))"
    using find_path_visited [of name "start_dir path_arg w" w] by blast
  have "recursive_steps name path_arg w = length vis - 1"
    unfolding recursive_steps_def by (subst find_path_start) (simp add: v)
  moreover have "0 < length vis" using n by simp
  ultimately show ?thesis using l by linarith
qed

text \<open>
  C4, as the code has it. The resolver is a total function: the recursion is on a path
  that \<open>os.path.dirname\<close> makes strictly shorter whenever it changes it, and it stops when
  \<open>dirname\<close> returns its argument. The number of recursive steps is at most the depth of
  the starting path (the number of its components) when the path does not end with a
  separator, as a path returned by \<open>os.getcwd()\<close>, and at most one more in general: the
  first step from a path that ends with a separator only removes the separator.
\<close>

theorem find_path_steps_bounded_by_depth:
  "(dirname p \<noteq> p \<longrightarrow> length (dirname p) < length p) \<and>
   recursive_steps name path_arg w \<le> depth (start_dir path_arg w) + 1 \<and>
   (last (start_dir path_arg w) \<noteq> sep \<or> depth (start_dir path_arg w) = 0 \<longrightarrow>
      recursive_steps name path_arg w \<le> depth (start_dir path_arg w))"
proof (intro conjI impI)
  assume "dirname p \<noteq> p"
  then show "length (dirname p) < length p" by (rule dirname_shorter)
next
  show "recursive_steps name path_arg w \<le> depth (start_dir path_arg w) + 1"
    using recursive_steps_ascent [of name path_arg w] ascent_length [of "start_dir path_arg w"]
    by linarith
next
  assume "last (start_dir path_arg w) \<noteq> sep \<or> depth (start_dir path_arg w) = 0"
  then have "tidy (start_dir path_arg w)" by (auto simp: tidy_def)
  then have "length (ascent (start_dir path_arg w)) \<le> depth (start_dir path_arg w) + 1"
    by (rule ascent_length_tidy)
  then show "recursive_steps name path_arg w \<le> depth (start_dir path_arg w)"
    using recursive_steps_ascent [of name path_arg w] by linarith
qed

theorem find_path_steps_bounded_by_depth_witness:
  "recursive_steps ''missing.yaml'' (Some ''/a/b/c'') example_world = 3 \<and>
   depth ''/a/b/c'' = 3 \<and>
   recursive_steps ''missing.yaml'' (Some ''/a/b/c'') example_world \<le> depth ''/a/b/c'' \<and>
   length (dirname ''/a/b/c'') < length ''/a/b/c''"
proof -
  have s: "start_dir (Some ''/a/b/c'') example_world = ''/a/b/c''"
    by (simp add: start_dir_def)
  have 1: "last ''/a/b/c'' \<noteq> sep" by (simp add: sep_def)
  have 2: "dirname ''/a/b/c'' \<noteq> ''/a/b/c''" by code_simp
  have 3: "recursive_steps ''missing.yaml'' (Some ''/a/b/c'') example_world = 3" by code_simp
  have 4: "depth ''/a/b/c'' = 3" by code_simp
  from find_path_steps_bounded_by_depth
    [of "''/a/b/c''" "''missing.yaml''" "Some ''/a/b/c''" example_world] s 1 2 3 4
  show ?thesis by simp
qed

theorem find_path_trailing_separator_extra_step:
  "depth ''/a/b/'' = 2 \<and>
   recursive_steps ''missing.yaml'' (Some ''/a/b/'') example_world = 3 \<and>
   listed (snd (find_path ''missing.yaml'' (Some ''/a/b/'') example_world)) =
     [''/a/b/'', ''/a/b'', ''/a'', ''/''] \<and>
   \<not> recursive_steps ''missing.yaml'' (Some ''/a/b/'') example_world \<le> depth ''/a/b/''"
  by code_simp

section \<open>Indexed and keyed extraction\<close>

text \<open>
  The values that \<open>get_value_at_index\<close> receives: a sequence (list or tuple), a string, a
  dictionary, or an object that cannot be subscripted. A string value is the list of its
  code points, since \<open>s[i]\<close> is the one-character string of the code point at position
  \<open>i\<close>. A dictionary is the list of its items; a key is an integer or a string, and the
  string of a key is only compared, so it is kept as its UTF-8 bytes. \<open>py_index\<close> is
  Python's positional access, where a negative index counts from the end and an index out
  of range raises \<open>IndexError\<close>.
\<close>

type_synonym code_point = nat

datatype key = IntKey int | StrKey string

datatype pyval =
    Opaque nat
  | PyStr "code_point list"
  | PyList "pyval list"
  | PyDict "(key \<times> pyval) list"

definition py_index :: "'a list \<Rightarrow> int \<Rightarrow> py_error + 'a" where
  "py_index xs i =
     (if 0 \<le> i \<and> i < int (length xs) then Inr (xs ! nat i)
      else if i < 0 \<and> - int (length xs) \<le> i then Inr (xs ! nat (int (length xs) + i))
      else Inl IndexError)"

text \<open>\<open>obj[k]\<close>, with the exception each type raises.\<close>

fun getitem :: "pyval \<Rightarrow> key \<Rightarrow> py_error + pyval" where
  "getitem (PyList xs) (IntKey i) = py_index xs i"
| "getitem (PyList xs) (StrKey s) = Inl TypeError"
| "getitem (PyStr cs) (IntKey i) =
     (case py_index cs i of Inl e \<Rightarrow> Inl e | Inr c \<Rightarrow> Inr (PyStr [c]))"
| "getitem (PyStr cs) (StrKey s) = Inl TypeError"
| "getitem (PyDict items) k =
     (case map_of items k of None \<Rightarrow> Inl KeyError | Some v \<Rightarrow> Inr v)"
| "getitem (Opaque h) k = Inl TypeError"

text \<open>
  \<^verbatim>\<open>
  try:
      return obj[index]
  except KeyError:
      return obj["result"][index]
  \<close>
  Only \<open>KeyError\<close> is caught; an exception raised in the handler is not. The second
  component of the result lists the subscript operations performed, in order.
\<close>

definition get_value_at_index :: "pyval \<Rightarrow> int \<Rightarrow> (py_error + pyval) \<times> (pyval \<times> key) list" where
  "get_value_at_index obj index =
     (case getitem obj (IntKey index) of
        Inr v \<Rightarrow> (Inr v, [(obj, IntKey index)])
      | Inl e \<Rightarrow>
          if e = KeyError then
            (case getitem obj (StrKey ''result'') of
               Inl e' \<Rightarrow> (Inl e', [(obj, IntKey index), (obj, StrKey ''result'')])
             | Inr r \<Rightarrow>
                 (getitem r (IntKey index),
                  [(obj, IntKey index), (obj, StrKey ''result''), (r, IntKey index)]))
          else (Inl e, [(obj, IntKey index)]))"

definition example_outputs :: pyval where
  "example_outputs = PyList [Opaque 1, Opaque 2, Opaque 3]"

definition example_ui_result :: pyval where
  "example_ui_result =
     PyDict [(StrKey ''ui'', Opaque 0), (StrKey ''result'', PyList [Opaque 7, Opaque 8])]"

definition example_int_keyed :: pyval where
  "example_int_keyed =
     PyDict [(IntKey 0, Opaque 5), (StrKey ''result'', PyList [Opaque 7, Opaque 8])]"

text \<open>
  C5. For a sequence (a list or tuple, or a string) and an index in range,
  \<open>get_value_at_index\<close> returns the element at that position, counted from the end for a
  negative index; the element of a string is the one-character string of the code point at
  that position. For an object whose
  positional access fails with a missing key, it returns what indexing the value stored
  under \<open>"result"\<close> gives: the element at that position when that value is a sequence and
  the index is in range.
\<close>

theorem get_value_at_index_returns_element:
  "(0 \<le> i \<and> i < int (length xs) \<longrightarrow>
      fst (get_value_at_index (PyList xs) i) = Inr (xs ! nat i)) \<and>
   (- int (length xs) \<le> i \<and> i < 0 \<longrightarrow>
      fst (get_value_at_index (PyList xs) i) = Inr (xs ! nat (int (length xs) + i))) \<and>
   (0 \<le> i \<and> i < int (length cs) \<longrightarrow>
      fst (get_value_at_index (PyStr cs) i) = Inr (PyStr [cs ! nat i])) \<and>
   (- int (length cs) \<le> i \<and> i < 0 \<longrightarrow>
      fst (get_value_at_index (PyStr cs) i) = Inr (PyStr [cs ! nat (int (length cs) + i)])) \<and>
   (getitem obj (IntKey i) = Inl KeyError \<and> getitem obj (StrKey ''result'') = Inr r \<longrightarrow>
      fst (get_value_at_index obj i) = getitem r (IntKey i)) \<and>
   (getitem obj (IntKey i) = Inl KeyError \<and> getitem obj (StrKey ''result'') = Inr (PyList ys) \<and>
      0 \<le> i \<and> i < int (length ys) \<longrightarrow>
      fst (get_value_at_index obj i) = Inr (ys ! nat i))"
  by (simp add: get_value_at_index_def py_index_def Let_def)

theorem get_value_at_index_returns_element_witness:
  "fst (get_value_at_index example_outputs 1) = Inr (Opaque 2) \<and>
   fst (get_value_at_index example_outputs (- 1)) = Inr (Opaque 3) \<and>
   fst (get_value_at_index (PyStr [0x65E5, 0x672C]) 1) = Inr (PyStr [0x672C]) \<and>
   fst (get_value_at_index (PyStr [0x65E5, 0x672C]) (- 2)) = Inr (PyStr [0x65E5]) \<and>
   getitem example_ui_result (IntKey 1) = Inl KeyError \<and>
   fst (get_value_at_index example_ui_result 1) = Inr (Opaque 8)"
proof -
  note t = get_value_at_index_returns_element
  have k: "getitem example_ui_result (IntKey 1) = Inl KeyError"
    by (simp add: example_ui_result_def)
  have r: "getitem example_ui_result (StrKey ''result'') = Inr (PyList [Opaque 7, Opaque 8])"
    by (simp add: example_ui_result_def)
  from t [where i = 1 and xs = "[Opaque 1, Opaque 2, Opaque 3]"]
  have "fst (get_value_at_index example_outputs 1) = Inr (Opaque 2)"
    by (simp add: example_outputs_def)
  moreover from t [where i = "- 1" and xs = "[Opaque 1, Opaque 2, Opaque 3]"]
  have "fst (get_value_at_index example_outputs (- 1)) = Inr (Opaque 3)"
    by (simp add: example_outputs_def)
  moreover from t [where i = 1 and cs = "[0x65E5, 0x672C]"]
  have "fst (get_value_at_index (PyStr [0x65E5, 0x672C]) 1) = Inr (PyStr [0x672C])"
    by simp
  moreover from t [where i = "- 2" and cs = "[0x65E5, 0x672C]"]
  have "fst (get_value_at_index (PyStr [0x65E5, 0x672C]) (- 2)) = Inr (PyStr [0x65E5])"
    by simp
  moreover from t [where i = 1 and obj = example_ui_result and ys = "[Opaque 7, Opaque 8]"]
  have "fst (get_value_at_index example_ui_result 1) = Inr (Opaque 8)"
    using k r by simp
  ultimately show ?thesis using k by simp
qed

text \<open>
  C6. When neither access succeeds, the exception is the result of \<open>get_value_at_index\<close>:
  the exception of the positional access when it is not a missing key, otherwise the
  exception of the lookup of \<open>"result"\<close>, or of the index into the value found there. No
  value is returned in its place.
\<close>

theorem get_value_at_index_failure_propagates:
  "(getitem obj (IntKey i) = Inl e \<and> e \<noteq> KeyError \<longrightarrow>
      fst (get_value_at_index obj i) = Inl e) \<and>
   (getitem obj (IntKey i) = Inl KeyError \<and> getitem obj (StrKey ''result'') = Inl e \<longrightarrow>
      fst (get_value_at_index obj i) = Inl e) \<and>
   (getitem obj (IntKey i) = Inl KeyError \<and> getitem obj (StrKey ''result'') = Inr r \<and>
      getitem r (IntKey i) = Inl e \<longrightarrow>
      fst (get_value_at_index obj i) = Inl e)"
  by (simp add: get_value_at_index_def)

theorem get_value_at_index_failure_propagates_witness:
  "fst (get_value_at_index example_outputs 3) = Inl IndexError \<and>
   fst (get_value_at_index (PyDict [(StrKey ''results'', example_outputs)]) 0) = Inl KeyError \<and>
   fst (get_value_at_index example_ui_result 2) = Inl IndexError"
proof -
  note t = get_value_at_index_failure_propagates
  from t [where obj = example_outputs and i = 3 and e = IndexError]
  have "fst (get_value_at_index example_outputs 3) = Inl IndexError"
    by (simp add: example_outputs_def py_index_def)
  moreover from t [where obj = "PyDict [(StrKey ''results'', example_outputs)]" and i = 0 and e = KeyError]
  have "fst (get_value_at_index (PyDict [(StrKey ''results'', example_outputs)]) 0) = Inl KeyError"
    by simp
  moreover from t [where obj = example_ui_result and i = 2 and e = IndexError
      and r = "PyList [Opaque 7, Opaque 8]"]
  have "fst (get_value_at_index example_ui_result 2) = Inl IndexError"
    by (simp add: example_ui_result_def py_index_def)
  ultimately show ?thesis by simp
qed

text \<open>
  C9. A dictionary that holds the integer index as a key gives \<open>obj[index]\<close> at once: the
  positional access is the only subscript performed and \<open>"result"\<close> is never looked up.
  Whenever the positional access does anything but raise \<open>KeyError\<close>, its outcome is the
  outcome of \<open>get_value_at_index\<close> and it is the only subscript performed; so a sequence
  indexed out of range raises \<open>IndexError\<close> without the fallback. The fallback is taken
  when the positional access raises \<open>KeyError\<close>.
\<close>

theorem get_value_at_index_fallback_only_on_KeyError:
  "(map_of items (IntKey i) = Some v \<longrightarrow>
      get_value_at_index (PyDict items) i = (Inr v, [(PyDict items, IntKey i)])) \<and>
   (getitem obj (IntKey i) \<noteq> Inl KeyError \<longrightarrow>
      get_value_at_index obj i = (getitem obj (IntKey i), [(obj, IntKey i)])) \<and>
   (i < - int (length xs) \<or> int (length xs) \<le> i \<longrightarrow>
      get_value_at_index (PyList xs) i = (Inl IndexError, [(PyList xs, IntKey i)])) \<and>
   (getitem obj (IntKey i) = Inl KeyError \<longrightarrow>
      take 2 (snd (get_value_at_index obj i)) = [(obj, IntKey i), (obj, StrKey ''result'')])"
  by (auto simp: get_value_at_index_def py_index_def Let_def split: sum.splits)

theorem get_value_at_index_fallback_only_on_KeyError_witness:
  "get_value_at_index example_int_keyed 0 = (Inr (Opaque 5), [(example_int_keyed, IntKey 0)]) \<and>
   get_value_at_index example_outputs 5 = (Inl IndexError, [(example_outputs, IntKey 5)]) \<and>
   fst (get_value_at_index example_int_keyed 1) = Inr (Opaque 8)"
proof -
  note t = get_value_at_index_fallback_only_on_KeyError
  from t [where items = "[(IntKey 0, Opaque 5), (StrKey ''result'', PyList [Opaque 7, Opaque 8])]"
      and i = 0 and v = "Opaque 5"]
  have "get_value_at_index example_int_keyed 0 = (Inr (Opaque 5), [(example_int_keyed, IntKey 0)])"
    by (simp add: example_int_keyed_def)
  moreover from t [where xs = "[Opaque 1, Opaque 2, Opaque 3]" and i = 5]
  have "get_value_at_index example_outputs 5 = (Inl IndexError, [(example_outputs, IntKey 5)])"
    by (simp add: example_outputs_def)
  moreover have "fst (get_value_at_index example_int_keyed 1) = Inr (Opaque 8)"
    by (simp add: example_int_keyed_def get_value_at_index_def py_index_def)
  ultimately show ?thesis by simp
qed

section \<open>Registering the installation directory and the extra model paths\<close>

text \<open>
  \<^verbatim>\<open>
  comfyui_path = find_path("ComfyUI")
  if comfyui_path is not None and os.path.isdir(comfyui_path):
      sys.path.append(comfyui_path)
      print(f"'{comfyui_path}' added to sys.path")
  \<close>
  There is no \<open>else\<close> branch.
\<close>

definition add_comfyui_directory_to_sys_path :: "world \<Rightarrow> (py_error + unit) \<times> world" where
  "add_comfyui_directory_to_sys_path w =
     (case find_path ''ComfyUI'' None w of
        (Inl e, w1) \<Rightarrow> (Inl e, w1)
      | (Inr comfyui_path, w1) \<Rightarrow>
          (case comfyui_path of
             None \<Rightarrow> (Inr (), w1)
           | Some p \<Rightarrow>
               if isdir w1 p then
                 (Inr (), print (CHR 0x27 # p @ CHR 0x27 # '' added to sys.path'')
                            (w1\<lparr>sys_path := sys_path w1 @ [p]\<rparr>))
               else (Inr (), w1)))"

text \<open>
  The modules \<open>main\<close> and \<open>utils.extra_config\<close> belong to the framework, not to this
  script. An import runs the module, which may change the process state, and either binds
  \<open>load_extra_path_config\<close> or raises; the function bound takes the path of the
  configuration file. Both imports are parameters of the model.
\<close>

type_synonym loader = "string \<Rightarrow> world \<Rightarrow> (py_error + unit) \<times> world"

record framework =
  import_main :: "world \<Rightarrow> (py_error + loader) \<times> world"
  import_utils_extra_config :: "world \<Rightarrow> (py_error + loader) \<times> world"

text \<open>
  \<^verbatim>\<open>
  try:
      from main import load_extra_path_config
  except ImportError:
      print("Could not import load_extra_path_config from main.py. Looking in utils.extra_config instead.")
      from utils.extra_config import load_extra_path_config
  \<close>
\<close>

definition import_load_extra_path_config :: "framework \<Rightarrow> world \<Rightarrow> (py_error + loader) \<times> world" where
  "import_load_extra_path_config fw w =
     (case import_main fw w of
        (Inr load, w1) \<Rightarrow> (Inr load, w1)
      | (Inl e, w1) \<Rightarrow>
          if e = ImportError then
            import_utils_extra_config fw
              (print ''Could not import load_extra_path_config from main.py. Looking in utils.extra_config instead.'' w1)
          else (Inl e, w1))"

text \<open>
  \<^verbatim>\<open>
  extra_model_paths = find_path("extra_model_paths.yaml")
  if extra_model_paths is not None:
      load_extra_path_config(extra_model_paths)
  else:
      print("Could not find the extra_model_paths config file.")
  \<close>
\<close>

definition add_extra_model_paths :: "framework \<Rightarrow> world \<Rightarrow> (py_error + unit) \<times> world" where
  "add_extra_model_paths fw w =
     (case import_load_extra_path_config fw w of
        (Inl e, w2) \<Rightarrow> (Inl e, w2)
      | (Inr load_extra_path_config, w2) \<Rightarrow>
          (case find_path ''extra_model_paths.yaml'' None w2 of
             (Inl e, w3) \<Rightarrow> (Inl e, w3)
           | (Inr (Some extra_model_paths), w3) \<Rightarrow> load_extra_path_config extra_model_paths w3
           | (Inr None, w3) \<Rightarrow>
               (Inr (), print ''Could not find the extra_model_paths config file.'' w3)))"

text \<open>
  A process started in \<open>/\<close> of the example filesystem, where neither \<open>ComfyUI\<close> nor
  \<open>extra_model_paths.yaml\<close> is found, and a framework whose module \<open>main\<close> cannot be
  imported while \<open>utils.extra_config\<close> can.
\<close>

definition root_world :: world where
  "root_world = example_world\<lparr>cwd := ''/''\<rparr>"

definition example_framework :: framework where
  "example_framework =
     \<lparr>import_main = (\<lambda>w. (Inl ImportError, w)),
      import_utils_extra_config = (\<lambda>w. (Inr (\<lambda>p w'. (Inr (), w'\<lparr>sys_path := sys_path w' @ [p]\<rparr>)), w))\<rparr>"

lemma find_path_root_world:
  "listdir root_world ''/'' = Inr [''a'', ''etc''] \<and> cwd root_world = ''/'' \<and>
   stdout root_world = [] \<and> sys_path root_world = [''/a/b'']"
  by (simp add: root_world_def example_world_def example_listdir_def)

lemma find_path_root_missing:
  assumes "listdir w ''/'' = Inr [''a'', ''etc'']" and "cwd w = ''/''"
    and "name \<noteq> ''a''" and "name \<noteq> ''etc''"
  shows "find_path name None w = (Inr None, w\<lparr>listed := listed w @ [''/'']\<rparr>)"
proof -
  have "dirname ''/'' = ''/''" by code_simp
  then show ?thesis
    using assms by (subst find_path_None, subst find_path_Some) simp
qed

text \<open>
  C7, as the code has it. When \<open>ComfyUI\<close> is not found, \<open>add_comfyui_directory_to_sys_path\<close>
  returns normally, leaves \<open>sys.path\<close> as it was and prints nothing. When
  \<open>load_extra_path_config\<close> has been imported and \<open>extra_model_paths.yaml\<close> is not found,
  \<open>add_extra_model_paths\<close> prints that it could not find the file and returns normally.
  Neither lookup raises for a name that is not found.
\<close>

theorem path_not_found_is_not_fatal:
  "(fst (find_path ''ComfyUI'' None w) = Inr None \<longrightarrow>
      fst (add_comfyui_directory_to_sys_path w) = Inr () \<and>
      sys_path (snd (add_comfyui_directory_to_sys_path w)) = sys_path w \<and>
      stdout (snd (add_comfyui_directory_to_sys_path w)) = stdout w) \<and>
   (import_load_extra_path_config fw w = (Inr load, w2) \<and>
      fst (find_path ''extra_model_paths.yaml'' None w2) = Inr None \<longrightarrow>
      fst (add_extra_model_paths fw w) = Inr () \<and>
      sys_path (snd (add_extra_model_paths fw w)) = sys_path w2 \<and>
      stdout (snd (add_extra_model_paths fw w)) =
        stdout w2 @ [''Could not find the extra_model_paths config file.''])"
proof (intro conjI impI)
  assume a: "fst (find_path ''ComfyUI'' None w) = Inr None"
  obtain w1 where r: "find_path ''ComfyUI'' None w = (Inr None, w1)"
    using a by (cases "find_path ''ComfyUI'' None w") simp
  have e: "sys_path w1 = sys_path w \<and> stdout w1 = stdout w"
    using find_path_frame [of "''ComfyUI''" "cwd w" w] r by (simp add: find_path_None)
  have c: "add_comfyui_directory_to_sys_path w = (Inr (), w1)"
    using r by (simp add: add_comfyui_directory_to_sys_path_def)
  show "fst (add_comfyui_directory_to_sys_path w) = Inr ()" using c by simp
  show "sys_path (snd (add_comfyui_directory_to_sys_path w)) = sys_path w" using c e by simp
  show "stdout (snd (add_comfyui_directory_to_sys_path w)) = stdout w" using c e by simp
next
  assume a: "import_load_extra_path_config fw w = (Inr load, w2) \<and>
      fst (find_path ''extra_model_paths.yaml'' None w2) = Inr None"
  obtain w3 where r: "find_path ''extra_model_paths.yaml'' None w2 = (Inr None, w3)"
    using a by (cases "find_path ''extra_model_paths.yaml'' None w2") simp
  have e: "sys_path w3 = sys_path w2 \<and> stdout w3 = stdout w2"
    using find_path_frame [of "''extra_model_paths.yaml''" "cwd w2" w2] r by (simp add: find_path_None)
  have c: "add_extra_model_paths fw w =
             (Inr (), print ''Could not find the extra_model_paths config file.'' w3)"
    using a r by (simp add: add_extra_model_paths_def)
  show "fst (add_extra_model_paths fw w) = Inr ()" using c by simp
  show "sys_path (snd (add_extra_model_paths fw w)) = sys_path w2"
    using c e by (simp add: print_def)
  show "stdout (snd (add_extra_model_paths fw w)) =
        stdout w2 @ [''Could not find the extra_model_paths config file.'']"
    using c e by (simp add: print_def)
qed

theorem path_not_found_is_not_fatal_witness:
  "fst (add_comfyui_directory_to_sys_path root_world) = Inr () \<and>
   sys_path (snd (add_comfyui_directory_to_sys_path root_world)) = [''/a/b''] \<and>
   fst (add_extra_model_paths example_framework root_world) = Inr () \<and>
   stdout (snd (add_extra_model_paths example_framework root_world)) =
     [''Could not import load_extra_path_config from main.py. Looking in utils.extra_config instead.'',
      ''Could not find the extra_model_paths config file.'']"
proof -
  let ?msg = "''Could not import load_extra_path_config from main.py. Looking in utils.extra_config instead.''"
  let ?w2 = "print ?msg root_world"
  let ?load = "\<lambda>p w'. (Inr (), w'\<lparr>sys_path := sys_path w' @ [p]\<rparr>) :: (py_error + unit) \<times> world"
  note rw = find_path_root_world
  have 1: "fst (find_path ''ComfyUI'' None root_world) = Inr None"
    using find_path_root_missing [of root_world "''ComfyUI''"] rw by simp
  have 2: "import_load_extra_path_config example_framework root_world = (Inr ?load, ?w2)"
    by (simp add: import_load_extra_path_config_def example_framework_def)
  have 3: "fst (find_path ''extra_model_paths.yaml'' None ?w2) = Inr None"
    using find_path_root_missing [of ?w2 "''extra_model_paths.yaml''"] rw by (simp add: print_def)
  have 4: "stdout ?w2 = [?msg]"
    using rw by (simp add: print_def)
  from path_not_found_is_not_fatal [of root_world example_framework ?load ?w2] 1 2 3 4 rw
  show ?thesis by simp
qed

theorem add_comfyui_silent_when_not_found:
  "fst (find_path ''ComfyUI'' None root_world) = Inr None \<and>
   fst (add_comfyui_directory_to_sys_path root_world) = Inr () \<and>
   stdout (snd (add_comfyui_directory_to_sys_path root_world)) = stdout root_world"
proof -
  have "find_path ''ComfyUI'' None root_world = (Inr None, root_world\<lparr>listed := listed root_world @ [''/'']\<rparr>)"
    using find_path_root_missing [of root_world "''ComfyUI''"] find_path_root_world by simp
  then show ?thesis
    by (simp add: add_comfyui_directory_to_sys_path_def)
qed

end
